theory Spec2Isabelle
  imports Main "HOL-Library.Word"
begin

section \<open>The CRAQ replica node (node/node.go)\<close>

text \<open>
  A shallow embedding of \<^verbatim>\<open>src/node/node.go\<close>. The node talks to three collaborators
  that are Go interfaces: the transport (\<^verbatim>\<open>Connect\<close>), the clients it hands out
  (\<^verbatim>\<open>Call\<close>, \<^verbatim>\<open>Close\<close>) and the store. Every call the node makes on one of them is
  appended to a history of events; what the collaborator answers is a parameter of the
  model (a function of the history so far and of the call's arguments), so every theorem
  holds for every deterministic behaviour of the collaborators. Logging is not modelled.
\<close>

subsection \<open>Data model\<close>

text \<open>A \<^verbatim>\<open>transport.Client\<close> is a handle; the nil interface value is \<open>None\<close>.\<close>

type_synonym client = nat

text \<open>A non-nil Go \<^verbatim>\<open>error\<close> value.\<close>

datatype error = Error string

text \<open>What a method returning \<^verbatim>\<open>error\<close> does: return nil, return an error, or panic
  (a method call on a nil interface value).\<close>

datatype result = Ok | Err error | Panic

text \<open>\<^verbatim>\<open>type neighbor struct { client transport.Client; path string }\<close>\<close>

record neighbor =
  client :: "client option"
  path :: string

text \<open>\<^verbatim>\<open>type Item struct { Version uint64; Committed bool; Value []byte; Key string }\<close>.
  A slice \<^verbatim>\<open>[]*Item\<close> is modelled as a list of items: the pointers in it are taken
  to be non-nil.\<close>

record Item =
  Version :: "64 word"
  Committed :: bool
  Value :: "8 word list"
  Key :: string

text \<open>Modelled from the spec: the package \<^verbatim>\<open>craqrpc\<close> is not under src/. The spec names
  the positions predecessor, successor and tail; the reply of \<^verbatim>\<open>AddNode\<close> is
  \<open>{is_head, is_tail, tail_path, prev_path}\<close>; a propagate request maps a key to the list
  of versions the caller holds; a propagate response maps a key to a list of items, of
  which the node reads \<^verbatim>\<open>Value\<close> and \<^verbatim>\<open>Version\<close>.\<close>

datatype NeighborPos = NeighborPosPrev | NeighborPosNext | NeighborPosTail

record NodeMeta =
  IsHead :: bool
  IsTail :: bool
  Tail :: string
  Prev :: string

type_synonym PropagateRequest = "string \<rightharpoonup> 64 word list"

text \<open>The response is a Go map, and \<^verbatim>\<open>range\<close> visits its entries in an order the
  runtime chooses. The model takes the entries as a list, in the order of that visit.\<close>

type_synonym PropagateResponse = "(string \<times> Item list) list"

text \<open>\<^verbatim>\<open>type Node struct\<close>. The fields \<^verbatim>\<open>store\<close> and \<^verbatim>\<open>transport\<close> are the
  collaborators (the parameter \<open>env\<close> below); \<^verbatim>\<open>mu\<close> is never used in this file.\<close>

record Node =
  neighbors :: "NeighborPos \<rightharpoonup> neighbor"
  latest :: "string \<rightharpoonup> 64 word"
  CdrPath :: string
  cdr :: "client option"
  Path :: string
  isHead :: bool
  isTail :: bool

text \<open>\<^verbatim>\<open>type Opts struct\<close>, without the two collaborators. Its fields \<^verbatim>\<open>Path\<close> and
  \<^verbatim>\<open>CdrPath\<close> are written \<open>OptsPath\<close> and \<open>OptsCdrPath\<close>, apart from the node's.\<close>

record Opts =
  OptsPath :: string
  OptsCdrPath :: string

subsection \<open>Collaborators and the history of calls\<close>

datatype rpc =
    AddNode string
  | FwdPropagate PropagateRequest
  | BackPropagate PropagateRequest

datatype event =
    EvConnect string
  | EvClose client
  | EvCall client rpc
  | EvAllDirty
  | EvAllCommitted
  | EvWrite string "8 word list" "64 word"
  | EvCommit string "64 word"

text \<open>The answers of the collaborators: each is a function of the history before the
  call and of the call's arguments. A store operation returning \<^verbatim>\<open>error\<close> answers
  \<open>None\<close> for nil. A \<^verbatim>\<open>Connect\<close> that returns no error hands out a client that is not
  nil. \<^verbatim>\<open>Close\<close> is recorded and its return value, as in the source, is not read.\<close>

record env =
  connect_reply :: "event list \<Rightarrow> string \<Rightarrow> error + client"
  addNode_reply :: "event list \<Rightarrow> client \<Rightarrow> string \<Rightarrow> error + NodeMeta"
  fwdPropagate_reply :: "event list \<Rightarrow> client \<Rightarrow> PropagateRequest \<Rightarrow> error + PropagateResponse"
  backPropagate_reply :: "event list \<Rightarrow> client \<Rightarrow> PropagateRequest \<Rightarrow> error + PropagateResponse"
  allDirty_reply :: "event list \<Rightarrow> error + Item list"
  allCommitted_reply :: "event list \<Rightarrow> error + Item list"
  write_reply :: "event list \<Rightarrow> string \<Rightarrow> 8 word list \<Rightarrow> 64 word \<Rightarrow> error option"
  commit_reply :: "event list \<Rightarrow> string \<Rightarrow> 64 word \<Rightarrow> error option"

definition transport_Connect :: "env \<Rightarrow> string \<Rightarrow> event list \<Rightarrow> (error + client) \<times> event list" where
  "transport_Connect env p h = (connect_reply env h p, h @ [EvConnect p])"

definition client_Close :: "client \<Rightarrow> event list \<Rightarrow> event list" where
  "client_Close c h = h @ [EvClose c]"

definition call_AddNode :: "env \<Rightarrow> client \<Rightarrow> string \<Rightarrow> event list \<Rightarrow> (error + NodeMeta) \<times> event list" where
  "call_AddNode env c p h = (addNode_reply env h c p, h @ [EvCall c (AddNode p)])"

definition call_FwdPropagate ::
  "env \<Rightarrow> client \<Rightarrow> PropagateRequest \<Rightarrow> event list \<Rightarrow> (error + PropagateResponse) \<times> event list" where
  "call_FwdPropagate env c args h = (fwdPropagate_reply env h c args, h @ [EvCall c (FwdPropagate args)])"

definition call_BackPropagate ::
  "env \<Rightarrow> client \<Rightarrow> PropagateRequest \<Rightarrow> event list \<Rightarrow> (error + PropagateResponse) \<times> event list" where
  "call_BackPropagate env c args h = (backPropagate_reply env h c args, h @ [EvCall c (BackPropagate args)])"

definition store_AllDirty :: "env \<Rightarrow> event list \<Rightarrow> (error + Item list) \<times> event list" where
  "store_AllDirty env h = (allDirty_reply env h, h @ [EvAllDirty])"

definition store_AllCommitted :: "env \<Rightarrow> event list \<Rightarrow> (error + Item list) \<times> event list" where
  "store_AllCommitted env h = (allCommitted_reply env h, h @ [EvAllCommitted])"

definition store_Write ::
  "env \<Rightarrow> string \<Rightarrow> 8 word list \<Rightarrow> 64 word \<Rightarrow> event list \<Rightarrow> error option \<times> event list" where
  "store_Write env k v ver h = (write_reply env h k v ver, h @ [EvWrite k v ver])"

definition store_Commit :: "env \<Rightarrow> string \<Rightarrow> 64 word \<Rightarrow> event list \<Rightarrow> error option \<times> event list" where
  "store_Commit env k ver h = (commit_reply env h k ver, h @ [EvCommit k ver])"

subsection \<open>The node's operations\<close>

text \<open>\<^verbatim>\<open>New\<close>: both maps start empty, no coordinator client, both role bits false.\<close>

definition New :: "Opts \<Rightarrow> Node" where
  "New opts = \<lparr> neighbors = Map.empty, latest = Map.empty, CdrPath = OptsCdrPath opts,
     cdr = None, Path = OptsPath opts, isHead = False, isTail = False \<rparr>"

text \<open>Reading a Go map at a key it does not hold gives the zero value.\<close>

definition nbr :: "Node \<Rightarrow> NeighborPos \<Rightarrow> neighbor" where
  "nbr n pos = (case neighbors n pos of None \<Rightarrow> \<lparr> client = None, path = [] \<rparr> | Some x \<Rightarrow> x)"

definition latest_at :: "Node \<Rightarrow> string \<Rightarrow> 64 word" where
  "latest_at n k = (case latest n k of None \<Rightarrow> 0 | Some v \<Rightarrow> v)"

text \<open>\<^verbatim>\<open>propagateRequestFromItems\<close>:
  \<^verbatim>\<open>req[item.Key] = append(req[item.Key], item.Version)\<close> for each item in turn; a key
  the map does not hold yet reads as the nil slice.\<close>

definition req_append :: "PropagateRequest \<Rightarrow> Item \<Rightarrow> PropagateRequest" where
  "req_append req item =
     req(Key item \<mapsto> (case req (Key item) of None \<Rightarrow> [] | Some vs \<Rightarrow> vs) @ [Version item])"

definition propagateRequestFromItems :: "Item list \<Rightarrow> PropagateRequest" where
  "propagateRequestFromItems items = foldl req_append Map.empty items"

text \<open>\<^verbatim>\<open>writePropagated\<close>: the inner loop over the items of one key, then the outer
  loop over the entries of the reply. The key written is the map's key.\<close>

fun writeItems :: "env \<Rightarrow> string \<Rightarrow> Item list \<Rightarrow> event list \<Rightarrow> result \<times> event list" where
  "writeItems env key [] h = (Ok, h)"
| "writeItems env key (item # forKey) h =
     (case store_Write env key (Value item) (Version item) h of
        (Some e, h') \<Rightarrow> (Err e, h')
      | (None, h') \<Rightarrow> writeItems env key forKey h')"

fun writePropagated :: "env \<Rightarrow> PropagateResponse \<Rightarrow> event list \<Rightarrow> result \<times> event list" where
  "writePropagated env [] h = (Ok, h)"
| "writePropagated env ((key, forKey) # reply) h =
     (case writeItems env key forKey h of
        (Ok, h') \<Rightarrow> writePropagated env reply h'
      | (r, h') \<Rightarrow> (r, h'))"

text \<open>\<^verbatim>\<open>commitPropagated\<close>, of the same shape.\<close>

fun commitItems :: "env \<Rightarrow> string \<Rightarrow> Item list \<Rightarrow> event list \<Rightarrow> result \<times> event list" where
  "commitItems env key [] h = (Ok, h)"
| "commitItems env key (item # forKey) h =
     (case store_Commit env key (Version item) h of
        (Some e, h') \<Rightarrow> (Err e, h')
      | (None, h') \<Rightarrow> commitItems env key forKey h')"

fun commitPropagated :: "env \<Rightarrow> PropagateResponse \<Rightarrow> event list \<Rightarrow> result \<times> event list" where
  "commitPropagated env [] h = (Ok, h)"
| "commitPropagated env ((key, forKey) # reply) h =
     (case commitItems env key forKey h of
        (Ok, h') \<Rightarrow> commitPropagated env reply h'
      | (r, h') \<Rightarrow> (r, h'))"

text \<open>\<^verbatim>\<open>requestFwdPropagation\<close> and \<^verbatim>\<open>requestBackPropagation\<close>. The client is the
  interface value the pointer argument points to; calling \<^verbatim>\<open>Call\<close> on nil panics.\<close>

definition requestFwdPropagation :: "env \<Rightarrow> client option \<Rightarrow> event list \<Rightarrow> result \<times> event list" where
  "requestFwdPropagation env cl h =
     (case store_AllDirty env h of
        (Inl e, h1) \<Rightarrow> (Err e, h1)
      | (Inr dirty, h1) \<Rightarrow>
          (let args = propagateRequestFromItems dirty in
           case cl of
             None \<Rightarrow> (Panic, h1)
           | Some c \<Rightarrow>
               (case call_FwdPropagate env c args h1 of
                  (Inl e, h2) \<Rightarrow> (Err e, h2)
                | (Inr reply, h2) \<Rightarrow> writePropagated env reply h2)))"

definition requestBackPropagation :: "env \<Rightarrow> client option \<Rightarrow> event list \<Rightarrow> result \<times> event list" where
  "requestBackPropagation env cl h =
     (case store_AllCommitted env h of
        (Inl e, h1) \<Rightarrow> (Err e, h1)
      | (Inr committed, h1) \<Rightarrow>
          (let args = propagateRequestFromItems committed in
           case cl of
             None \<Rightarrow> (Panic, h1)
           | Some c \<Rightarrow>
               (case call_BackPropagate env c args h1 of
                  (Inl e, h2) \<Rightarrow> (Err e, h2)
                | (Inr reply, h2) \<Rightarrow> commitPropagated env reply h2)))"

text \<open>\<^verbatim>\<open>fullPropagate\<close>\<close>

definition fullPropagate :: "env \<Rightarrow> Node \<Rightarrow> event list \<Rightarrow> result \<times> event list" where
  "fullPropagate env n h =
     (let prevNeighbor = client (nbr n NeighborPosPrev) in
      case requestFwdPropagation env prevNeighbor h of
        (Ok, h1) \<Rightarrow> requestBackPropagation env prevNeighbor h1
      | (r, h1) \<Rightarrow> (r, h1))"

text \<open>\<^verbatim>\<open>connectToNode\<close>: connect first; on success close the client installed at the
  position, if there is one, and install the new record.\<close>

definition connectToNode ::
  "env \<Rightarrow> string \<Rightarrow> NeighborPos \<Rightarrow> Node \<Rightarrow> event list \<Rightarrow> result \<times> Node \<times> event list" where
  "connectToNode env p pos n h =
     (case transport_Connect env p h of
        (Inl e, h1) \<Rightarrow> (Err e, n, h1)
      | (Inr c, h1) \<Rightarrow>
          (let h2 = (case client (nbr n pos) of None \<Rightarrow> h1 | Some old \<Rightarrow> client_Close old h1)
           in (Ok, n\<lparr>neighbors := (neighbors n)(pos \<mapsto> \<lparr> client = Some c, path = p \<rparr>)\<rparr>, h2)))"

text \<open>\<^verbatim>\<open>ConnectToCoordinator\<close>. Its two closing blocks are definitions of their own,
  named after the comments that open them in the source: \<^verbatim>\<open>// Connect to tail\<close>
  (lines 136 to 142) and \<^verbatim>\<open>// Connect to predecessor\<close> (lines 144 to 156). A block
  that returns an error ends the function with that error; one that returns \<open>Ok\<close> here
  has fallen through to the next statement.\<close>

definition connect_to_tail ::
  "env \<Rightarrow> NodeMeta \<Rightarrow> Node \<Rightarrow> event list \<Rightarrow> result \<times> Node \<times> event list" where
  "connect_to_tail env reply n h =
     (if \<not> IsTail reply
      then connectToNode env (Tail reply) NeighborPosTail n h
      else (Ok, n, h))"

definition connect_to_predecessor ::
  "env \<Rightarrow> NodeMeta \<Rightarrow> Node \<Rightarrow> event list \<Rightarrow> result \<times> Node \<times> event list" where
  "connect_to_predecessor env reply n h =
     (if Prev reply \<noteq> []
      then (case connectToNode env (Prev reply) NeighborPosPrev n h of
              (Ok, n1, h1) \<Rightarrow> (case fullPropagate env n1 h1 of (r, h2) \<Rightarrow> (r, n1, h2))
            | (r, n1, h1) \<Rightarrow> (r, n1, h1))
      else if path (nbr n NeighborPosPrev) \<noteq> []
      then (case client (nbr n NeighborPosPrev) of
              None \<Rightarrow> (Panic, n, h)
            | Some c \<Rightarrow> (Ok, n, client_Close c h))
      else (Ok, n, h))"

definition ConnectToCoordinator :: "env \<Rightarrow> Node \<Rightarrow> event list \<Rightarrow> result \<times> Node \<times> event list" where
  "ConnectToCoordinator env n h =
     (case transport_Connect env (CdrPath n) h of
        (Inl e, h1) \<Rightarrow> (Err e, n, h1)
      | (Inr cdrClient, h1) \<Rightarrow>
          (let n1 = n\<lparr>cdr := Some cdrClient\<rparr> in
           case call_AddNode env cdrClient (Path n1) h1 of
             (Inl e, h2) \<Rightarrow> (Err e, n1, h2)
           | (Inr reply, h2) \<Rightarrow>
               (let n2 = n1\<lparr>isHead := IsHead reply, isTail := IsTail reply,
                             neighbors := (neighbors n1)(NeighborPosTail \<mapsto>
                                \<lparr> client = None, path = Tail reply \<rparr>)\<rparr> in
                case connect_to_tail env reply n2 h2 of
                  (Ok, n3, h3) \<Rightarrow> connect_to_predecessor env reply n3 h3
                | (r, n3, h3) \<Rightarrow> (r, n3, h3))))"

subsection \<open>Reading a history\<close>

text \<open>The entries of a response as one list of (key, item) pairs, in the order the two
  nested loops reach them, and the store call each pair gives rise to.\<close>

definition entries :: "PropagateResponse \<Rightarrow> (string \<times> Item) list" where
  "entries reply = concat (map (\<lambda>(key, forKey). map (Pair key) forKey) reply)"

definition write_event :: "string \<times> Item \<Rightarrow> event" where
  "write_event p = EvWrite (fst p) (Value (snd p)) (Version (snd p))"

definition commit_event :: "string \<times> Item \<Rightarrow> event" where
  "commit_event p = EvCommit (fst p) (Version (snd p))"

definition write_answer :: "env \<Rightarrow> event list \<Rightarrow> string \<times> Item \<Rightarrow> error option" where
  "write_answer env h p = write_reply env h (fst p) (Value (snd p)) (Version (snd p))"

definition commit_answer :: "env \<Rightarrow> event list \<Rightarrow> string \<times> Item \<Rightarrow> error option" where
  "commit_answer env h p = commit_reply env h (fst p) (Version (snd p))"

text \<open>A run of store calls, one per pair, that stops at the first error: the common
  shape of the two loops, used to reason about them.\<close>

fun run_calls ::
  "(event list \<Rightarrow> 'a \<Rightarrow> error option) \<Rightarrow> ('a \<Rightarrow> event) \<Rightarrow> 'a list \<Rightarrow> event list \<Rightarrow> result \<times> event list" where
  "run_calls answer ev [] h = (Ok, h)"
| "run_calls answer ev (p # ps) h =
     (case answer h p of
        Some e \<Rightarrow> (Err e, h @ [ev p])
      | None \<Rightarrow> run_calls answer ev ps (h @ [ev p]))"

text \<open>Every call of the run, made after the calls before it, answers nil.\<close>

fun all_succeed ::
  "(event list \<Rightarrow> 'a \<Rightarrow> error option) \<Rightarrow> ('a \<Rightarrow> event) \<Rightarrow> 'a list \<Rightarrow> event list \<Rightarrow> bool" where
  "all_succeed answer ev [] h = True"
| "all_succeed answer ev (p # ps) h = (answer h p = None \<and> all_succeed answer ev ps (h @ [ev p]))"

text \<open>The calls of forward propagation and those of back propagation.\<close>

fun is_fwd_event :: "event \<Rightarrow> bool" where
  "is_fwd_event EvAllDirty = True"
| "is_fwd_event (EvCall c (FwdPropagate args)) = True"
| "is_fwd_event (EvWrite k v ver) = True"
| "is_fwd_event e = False"

fun is_back_event :: "event \<Rightarrow> bool" where
  "is_back_event EvAllCommitted = True"
| "is_back_event (EvCall c (BackPropagate args)) = True"
| "is_back_event (EvCommit k ver) = True"
| "is_back_event e = False"

text \<open>The calls that open a connection.\<close>

fun is_connect_event :: "event \<Rightarrow> bool" where
  "is_connect_event (EvConnect p) = True"
| "is_connect_event e = False"

subsection \<open>The latest-version map against the store\<close>

text \<open>The largest version among the items of a key (0 when there is none), and the
  property that the \<^verbatim>\<open>latest\<close> map holds, for every key of the enumerated items, the
  largest version enumerated for it.\<close>

definition max_version :: "Item list \<Rightarrow> string \<Rightarrow> 64 word" where
  "max_version items k = foldr max (map Version (filter (\<lambda>i. Key i = k) items)) 0"

definition latest_reconstructed :: "Node \<Rightarrow> Item list \<Rightarrow> Item list \<Rightarrow> bool" where
  "latest_reconstructed n dirty committed =
     list_all (\<lambda>k. latest_at n k = max_version (dirty @ committed) k) (map Key (dirty @ committed))"

subsection \<open>Concrete collaborators\<close>

text \<open>A store that holds version 1 of key x, uncommitted; a predecessor that sends
  version 2 of x on forward propagation and version 1 on back propagation; a transport
  whose handles are numbered by the length of the history at the time of the call; a
  coordinator that places the node in the middle of the chain, after p and before the
  tail t.\<close>

definition item_x1 :: Item where
  "item_x1 = \<lparr> Version = 1, Committed = False, Value = [1], Key = ''x'' \<rparr>"

definition item_x2 :: Item where
  "item_x2 = \<lparr> Version = 2, Committed = False, Value = [2], Key = ''x'' \<rparr>"

definition item_y1 :: Item where
  "item_y1 = \<lparr> Version = 1, Committed = False, Value = [3], Key = ''y'' \<rparr>"

definition meta_middle :: NodeMeta where
  "meta_middle = \<lparr> IsHead = False, IsTail = False, Tail = ''t'', Prev = ''p'' \<rparr>"

definition meta_head :: NodeMeta where
  "meta_head = \<lparr> IsHead = True, IsTail = False, Tail = ''t'', Prev = [] \<rparr>"

definition meta_tail :: NodeMeta where
  "meta_tail = \<lparr> IsHead = False, IsTail = True, Tail = ''n'', Prev = ''p'' \<rparr>"

definition env0 :: env where
  "env0 = \<lparr> connect_reply = (\<lambda>h p. Inr (length h)),
            addNode_reply = (\<lambda>h c p. Inr meta_middle),
            fwdPropagate_reply = (\<lambda>h c args. Inr [(''x'', [item_x2])]),
            backPropagate_reply = (\<lambda>h c args. Inr [(''x'', [item_x1])]),
            allDirty_reply = (\<lambda>h. Inr [item_x1]),
            allCommitted_reply = (\<lambda>h. Inr []),
            write_reply = (\<lambda>h k v ver. None),
            commit_reply = (\<lambda>h k ver. None) \<rparr>"

definition opts0 :: Opts where
  "opts0 = \<lparr> OptsPath = ''n'', OptsCdrPath = ''c'' \<rparr>"

text \<open>The same with a coordinator that makes the node the head, or the tail.\<close>

definition env_head :: env where
  "env_head = env0\<lparr>addNode_reply := (\<lambda>h c p. Inr meta_head)\<rparr>"

definition env_tail :: env where
  "env_tail = env0\<lparr>addNode_reply := (\<lambda>h c p. Inr meta_tail)\<rparr>"

text \<open>The same with a predecessor that does not answer forward propagation.\<close>

definition env_fwd_down :: env where
  "env_fwd_down = env0\<lparr>fwdPropagate_reply := (\<lambda>h c args. Inl (Error ''down''))\<rparr>"

text \<open>The same with a store that refuses version 2 of any key, on write and on commit.\<close>

definition env_refuse2 :: env where
  "env_refuse2 = env0\<lparr>
     write_reply := (\<lambda>h k v ver. if ver = 2 then Some (Error ''refused'') else None),
     commit_reply := (\<lambda>h k ver. if ver = 2 then Some (Error ''refused'') else None)\<rparr>"

definition reply3 :: PropagateResponse where
  "reply3 = [(''x'', [item_x1, item_x2]), (''y'', [item_y1])]"

text \<open>A node that joins twice: the coordinator connection is run on a new node, then
  again on the node and history the first run leaves.\<close>

definition first_join :: "env \<Rightarrow> result \<times> Node \<times> event list" where
  "first_join env = ConnectToCoordinator env (New opts0) []"

definition second_join :: "env \<Rightarrow> result \<times> Node \<times> event list" where
  "second_join env =
     ConnectToCoordinator env (fst (snd (first_join env))) (snd (snd (first_join env)))"

text \<open>A node whose predecessor is connected through the handle 3.\<close>

definition node_with_prev :: Node where
  "node_with_prev = (New opts0)\<lparr>neighbors :=
     [NeighborPosPrev \<mapsto> \<lparr> client = Some 3, path = ''p'' \<rparr>]\<rparr>"

section \<open>Properties\<close>

subsection \<open>The propagate request\<close>

lemma foldl_req_append:
  "foldl req_append req items k =
     (if k \<in> Key ` set items \<or> req k \<noteq> None
      then Some ((case req k of None \<Rightarrow> [] | Some vs \<Rightarrow> vs) @
                 map Version (filter (\<lambda>i. Key i = k) items))
      else None)"
proof (induction items arbitrary: req)
  case Nil
  then show ?case by (cases "req k") simp_all
next
  case (Cons item items)
  show ?case
  proof (cases "Key item = k")
    case True
    have "req_append req item k = Some ((case req k of None \<Rightarrow> [] | Some vs \<Rightarrow> vs) @ [Version item])"
      using True by (simp add: req_append_def)
    with True show ?thesis
      by (simp add: Cons.IH)
  next
    case False
    have "req_append req item k = req k"
      using False by (simp add: req_append_def)
    with False show ?thesis
      by (simp add: Cons.IH)
  qed
qed

subsection \<open>The two loops\<close>

lemma run_calls_append:
  "run_calls answer ev (ps @ qs) h =
     (case run_calls answer ev ps h of
        (Ok, h') \<Rightarrow> run_calls answer ev qs h'
      | (r, h') \<Rightarrow> (r, h'))"
  by (induction ps arbitrary: h) (auto split: option.splits)

lemma writeItems_run:
  "writeItems env key forKey h = run_calls (write_answer env) write_event (map (Pair key) forKey) h"
  by (induction forKey arbitrary: h)
     (auto simp: store_Write_def write_answer_def write_event_def split: option.splits)

lemma writePropagated_run:
  "writePropagated env reply h = run_calls (write_answer env) write_event (entries reply) h"
proof (induction reply arbitrary: h)
  case Nil
  then show ?case by (simp add: entries_def)
next
  case (Cons entry reply)
  obtain key forKey where entry: "entry = (key, forKey)" by (cases entry)
  have "entries (entry # reply) = map (Pair key) forKey @ entries reply"
    by (simp add: entries_def entry)
  then show ?case
    by (simp add: entry run_calls_append writeItems_run Cons.IH split: prod.splits result.splits)
qed

lemma commitItems_run:
  "commitItems env key forKey h = run_calls (commit_answer env) commit_event (map (Pair key) forKey) h"
  by (induction forKey arbitrary: h)
     (auto simp: store_Commit_def commit_answer_def commit_event_def split: option.splits)

lemma commitPropagated_run:
  "commitPropagated env reply h = run_calls (commit_answer env) commit_event (entries reply) h"
proof (induction reply arbitrary: h)
  case Nil
  then show ?case by (simp add: entries_def)
next
  case (Cons entry reply)
  obtain key forKey where entry: "entry = (key, forKey)" by (cases entry)
  have "entries (entry # reply) = map (Pair key) forKey @ entries reply"
    by (simp add: entries_def entry)
  then show ?case
    by (simp add: entry run_calls_append commitItems_run Cons.IH split: prod.splits result.splits)
qed

lemma run_calls_all_succeed:
  "all_succeed answer ev ps h \<Longrightarrow> run_calls answer ev ps h = (Ok, h @ map ev ps)"
  by (induction ps arbitrary: h) auto

lemma run_calls_Ok:
  "run_calls answer ev ps h = (Ok, h') \<Longrightarrow> all_succeed answer ev ps h \<and> h' = h @ map ev ps"
proof (induction ps arbitrary: h)
  case Nil
  then show ?case by simp
next
  case (Cons p ps)
  from Cons.prems have nil: "answer h p = None"
    by (simp split: option.splits)
  with Cons.prems have "run_calls answer ev ps (h @ [ev p]) = (Ok, h')"
    by simp
  from Cons.IH [OF this] nil show ?case by simp
qed

lemma run_calls_first_failure:
  "all_succeed answer ev (take i ps) h \<Longrightarrow> i < length ps \<Longrightarrow>
   answer (h @ map ev (take i ps)) (ps ! i) = Some e \<Longrightarrow>
   run_calls answer ev ps h = (Err e, h @ map ev (take (Suc i) ps))"
proof (induction ps arbitrary: h i)
  case Nil
  then show ?case by simp
next
  case (Cons p ps)
  show ?case
  proof (cases i)
    case 0
    with Cons.prems show ?thesis by simp
  next
    case (Suc j)
    with Cons.prems have "answer h p = None" "all_succeed answer ev (take j ps) (h @ [ev p])"
      "j < length ps" "answer ((h @ [ev p]) @ map ev (take j ps)) (ps ! j) = Some e"
      by simp_all
    with Cons.IH [of j "h @ [ev p]"] Suc show ?thesis by simp
  qed
qed

lemma run_calls_history:
  "\<exists>k \<le> length ps. snd (run_calls answer ev ps h) = h @ map ev (take k ps)"
proof (induction ps arbitrary: h)
  case Nil
  then show ?case by simp
next
  case (Cons p ps)
  show ?case
  proof (cases "answer h p")
    case None
    from Cons.IH [of "h @ [ev p]"] obtain k where
      "k \<le> length ps" "snd (run_calls answer ev ps (h @ [ev p])) = (h @ [ev p]) @ map ev (take k ps)"
      by blast
    with None have "Suc k \<le> length (p # ps) \<and>
        snd (run_calls answer ev (p # ps) h) = h @ map ev (take (Suc k) (p # ps))"
      by simp
    then show ?thesis by blast
  next
    case (Some e)
    then have "Suc 0 \<le> length (p # ps) \<and>
        snd (run_calls answer ev (p # ps) h) = h @ map ev (take (Suc 0) (p # ps))"
      by simp
    then show ?thesis by blast
  qed
qed

subsection \<open>Forward and back propagation\<close>

lemma requestFwd_AllDirty_error:
  "allDirty_reply env h = Inl e \<Longrightarrow> requestFwdPropagation env cl h = (Err e, h @ [EvAllDirty])"
  by (simp add: requestFwdPropagation_def store_AllDirty_def)

lemma requestFwd_nil_client:
  "allDirty_reply env h = Inr dirty \<Longrightarrow> requestFwdPropagation env None h = (Panic, h @ [EvAllDirty])"
  by (simp add: requestFwdPropagation_def store_AllDirty_def)

lemma requestFwd_call_error:
  "allDirty_reply env h = Inr dirty \<Longrightarrow>
   fwdPropagate_reply env (h @ [EvAllDirty]) c (propagateRequestFromItems dirty) = Inl e \<Longrightarrow>
   requestFwdPropagation env (Some c) h =
     (Err e, h @ [EvAllDirty, EvCall c (FwdPropagate (propagateRequestFromItems dirty))])"
  by (simp add: requestFwdPropagation_def store_AllDirty_def call_FwdPropagate_def)

lemma requestFwd_reply:
  "allDirty_reply env h = Inr dirty \<Longrightarrow>
   fwdPropagate_reply env (h @ [EvAllDirty]) c (propagateRequestFromItems dirty) = Inr reply \<Longrightarrow>
   requestFwdPropagation env (Some c) h =
     run_calls (write_answer env) write_event (entries reply)
       (h @ [EvAllDirty, EvCall c (FwdPropagate (propagateRequestFromItems dirty))])"
  by (simp add: requestFwdPropagation_def store_AllDirty_def call_FwdPropagate_def writePropagated_run)

lemma requestBack_AllCommitted_error:
  "allCommitted_reply env h = Inl e \<Longrightarrow> requestBackPropagation env cl h = (Err e, h @ [EvAllCommitted])"
  by (simp add: requestBackPropagation_def store_AllCommitted_def)

lemma requestBack_nil_client:
  "allCommitted_reply env h = Inr committed \<Longrightarrow>
   requestBackPropagation env None h = (Panic, h @ [EvAllCommitted])"
  by (simp add: requestBackPropagation_def store_AllCommitted_def)

lemma requestBack_call_error:
  "allCommitted_reply env h = Inr committed \<Longrightarrow>
   backPropagate_reply env (h @ [EvAllCommitted]) c (propagateRequestFromItems committed) = Inl e \<Longrightarrow>
   requestBackPropagation env (Some c) h =
     (Err e, h @ [EvAllCommitted, EvCall c (BackPropagate (propagateRequestFromItems committed))])"
  by (simp add: requestBackPropagation_def store_AllCommitted_def call_BackPropagate_def)

lemma requestBack_reply:
  "allCommitted_reply env h = Inr committed \<Longrightarrow>
   backPropagate_reply env (h @ [EvAllCommitted]) c (propagateRequestFromItems committed) = Inr reply \<Longrightarrow>
   requestBackPropagation env (Some c) h =
     run_calls (commit_answer env) commit_event (entries reply)
       (h @ [EvAllCommitted, EvCall c (BackPropagate (propagateRequestFromItems committed))])"
  by (simp add: requestBackPropagation_def store_AllCommitted_def call_BackPropagate_def
      commitPropagated_run)

lemma fwd_events_of_writes: "list_all is_fwd_event (map write_event ps)"
  by (simp add: list_all_iff write_event_def)

lemma back_events_of_commits: "list_all is_back_event (map commit_event ps)"
  by (simp add: list_all_iff commit_event_def)

lemma requestFwd_events:
  "\<exists>fs. snd (requestFwdPropagation env cl h) = h @ EvAllDirty # fs \<and> list_all is_fwd_event fs"
proof (cases "allDirty_reply env h")
  case (Inl e)
  then show ?thesis by (simp add: requestFwd_AllDirty_error)
next
  case dirty: (Inr dirty)
  show ?thesis
  proof (cases cl)
    case None
    with dirty show ?thesis by (simp add: requestFwd_nil_client)
  next
    case (Some c)
    let ?call = "EvCall c (FwdPropagate (propagateRequestFromItems dirty))"
    show ?thesis
    proof (cases "fwdPropagate_reply env (h @ [EvAllDirty]) c (propagateRequestFromItems dirty)")
      case (Inl e)
      with dirty Some show ?thesis by (simp add: requestFwd_call_error)
    next
      case (Inr reply)
      obtain k where
        "snd (run_calls (write_answer env) write_event (entries reply) (h @ [EvAllDirty, ?call])) =
           (h @ [EvAllDirty, ?call]) @ map write_event (take k (entries reply))"
        using run_calls_history by blast
      with dirty Some Inr have
        "snd (requestFwdPropagation env cl h) =
           h @ EvAllDirty # (?call # map write_event (take k (entries reply)))"
        by (simp add: requestFwd_reply)
      moreover have "list_all is_fwd_event (?call # map write_event (take k (entries reply)))"
        by (simp add: fwd_events_of_writes)
      ultimately show ?thesis by blast
    qed
  qed
qed

lemma requestBack_events:
  "\<exists>bs. snd (requestBackPropagation env cl h) = h @ EvAllCommitted # bs \<and> list_all is_back_event bs"
proof (cases "allCommitted_reply env h")
  case (Inl e)
  then show ?thesis by (simp add: requestBack_AllCommitted_error)
next
  case committed: (Inr committed)
  show ?thesis
  proof (cases cl)
    case None
    with committed show ?thesis by (simp add: requestBack_nil_client)
  next
    case (Some c)
    let ?call = "EvCall c (BackPropagate (propagateRequestFromItems committed))"
    show ?thesis
    proof (cases "backPropagate_reply env (h @ [EvAllCommitted]) c (propagateRequestFromItems committed)")
      case (Inl e)
      with committed Some show ?thesis by (simp add: requestBack_call_error)
    next
      case (Inr reply)
      obtain k where
        "snd (run_calls (commit_answer env) commit_event (entries reply) (h @ [EvAllCommitted, ?call])) =
           (h @ [EvAllCommitted, ?call]) @ map commit_event (take k (entries reply))"
        using run_calls_history by blast
      with committed Some Inr have
        "snd (requestBackPropagation env cl h) =
           h @ EvAllCommitted # (?call # map commit_event (take k (entries reply)))"
        by (simp add: requestBack_reply)
      moreover have "list_all is_back_event (?call # map commit_event (take k (entries reply)))"
        by (simp add: back_events_of_commits)
      ultimately show ?thesis by blast
    qed
  qed
qed

text \<open>
  Claim C1. In \<^verbatim>\<open>fullPropagate\<close> the calls of forward propagation (\<open>fs\<close>: the
  enumeration of the dirty items, the request to the predecessor, the writes) all come
  before the calls of back propagation (\<open>bs\<close>: the enumeration of the committed items,
  the request, the commits). Forward propagation is always started; back propagation
  follows when it returns nil, and when it returns an error no call of back propagation
  is made and \<^verbatim>\<open>fullPropagate\<close> returns that error.
\<close>

theorem fullPropagate_forward_before_back:
  "\<exists>fs bs.
      snd (requestFwdPropagation env (client (nbr n NeighborPosPrev)) h) = h @ fs \<and>
      snd (fullPropagate env n h) = h @ fs @ bs \<and>
      fs \<noteq> [] \<and> list_all is_fwd_event fs \<and> list_all is_back_event bs \<and>
      (fst (requestFwdPropagation env (client (nbr n NeighborPosPrev)) h) = Ok \<longrightarrow> bs \<noteq> []) \<and>
      (\<forall>e. fst (requestFwdPropagation env (client (nbr n NeighborPosPrev)) h) = Err e \<longrightarrow>
           bs = [] \<and> fst (fullPropagate env n h) = Err e)"
proof -
  let ?cl = "client (nbr n NeighborPosPrev)"
  obtain r h1 where fwd: "requestFwdPropagation env ?cl h = (r, h1)"
    by (cases "requestFwdPropagation env ?cl h")
  obtain fs where fs: "h1 = h @ EvAllDirty # fs" "list_all is_fwd_event fs"
    using requestFwd_events [of env ?cl h] fwd by auto
  show ?thesis
  proof (cases "r = Ok")
    case True
    obtain bs where bs: "snd (requestBackPropagation env ?cl h1) = h1 @ EvAllCommitted # bs"
      "list_all is_back_event bs"
      using requestBack_events by blast
    have "snd (fullPropagate env n h) = h @ (EvAllDirty # fs) @ (EvAllCommitted # bs)"
      using True fwd fs bs by (simp add: fullPropagate_def)
    with fwd fs bs True show ?thesis
      by (intro exI [of _ "EvAllDirty # fs"] exI [of _ "EvAllCommitted # bs"]) simp
  next
    case False
    then have "fullPropagate env n h = (r, h1)"
      using fwd by (cases r) (simp_all add: fullPropagate_def)
    with fwd fs False show ?thesis
      by (intro exI [of _ "EvAllDirty # fs"] exI [of _ "[]"]) simp
  qed
qed

theorem fullPropagate_forward_before_back_witness:
  "fst (requestFwdPropagation env_fwd_down (client (nbr node_with_prev NeighborPosPrev)) []) =
     Err (Error ''down'') \<and>
   fst (fullPropagate env_fwd_down node_with_prev []) = Err (Error ''down'') \<and>
   snd (fullPropagate env_fwd_down node_with_prev []) =
     [EvAllDirty, EvCall 3 (FwdPropagate (propagateRequestFromItems [item_x1]))] \<and>
   fst (requestFwdPropagation env0 (client (nbr node_with_prev NeighborPosPrev)) []) = Ok \<and>
   snd (fullPropagate env0 node_with_prev []) =
     [EvAllDirty, EvCall 3 (FwdPropagate (propagateRequestFromItems [item_x1])),
      EvWrite ''x'' [2] 2,
      EvAllCommitted, EvCall 3 (BackPropagate (propagateRequestFromItems [])),
      EvCommit ''x'' 1]"
proof -
  let ?cl = "client (nbr node_with_prev NeighborPosPrev)"
  have cl: "?cl = Some 3"
    by (simp add: node_with_prev_def nbr_def)
  have down: "requestFwdPropagation env_fwd_down ?cl [] =
      (Err (Error ''down''), [EvAllDirty, EvCall 3 (FwdPropagate (propagateRequestFromItems [item_x1]))])"
    by (simp add: cl requestFwdPropagation_def store_AllDirty_def call_FwdPropagate_def
        env_fwd_down_def env0_def)
  have up: "requestFwdPropagation env0 ?cl [] =
      (Ok, [EvAllDirty, EvCall 3 (FwdPropagate (propagateRequestFromItems [item_x1])),
            EvWrite ''x'' [2] 2])"
    by (simp add: cl requestFwdPropagation_def store_AllDirty_def call_FwdPropagate_def
        store_Write_def env0_def item_x2_def)
  have bk: "requestBackPropagation env0 ?cl
        [EvAllDirty, EvCall 3 (FwdPropagate (propagateRequestFromItems [item_x1])), EvWrite ''x'' [2] 2] =
      (Ok, [EvAllDirty, EvCall 3 (FwdPropagate (propagateRequestFromItems [item_x1])),
            EvWrite ''x'' [2] 2,
            EvAllCommitted, EvCall 3 (BackPropagate (propagateRequestFromItems [])),
            EvCommit ''x'' 1])"
    by (simp add: cl requestBackPropagation_def store_AllCommitted_def call_BackPropagate_def
        store_Commit_def env0_def item_x1_def)
  from fullPropagate_forward_before_back [of env_fwd_down node_with_prev "[]"]
  obtain fs bs where
    "snd (requestFwdPropagation env_fwd_down ?cl []) = [] @ fs"
    "snd (fullPropagate env_fwd_down node_with_prev []) = [] @ fs @ bs"
    "\<forall>e. fst (requestFwdPropagation env_fwd_down ?cl []) = Err e \<longrightarrow>
         bs = [] \<and> fst (fullPropagate env_fwd_down node_with_prev []) = Err e"
    by blast
  with down have "fst (fullPropagate env_fwd_down node_with_prev []) = Err (Error ''down'')"
    "snd (fullPropagate env_fwd_down node_with_prev []) =
       [EvAllDirty, EvCall 3 (FwdPropagate (propagateRequestFromItems [item_x1]))]"
    by simp_all
  moreover have "snd (fullPropagate env0 node_with_prev []) =
     [EvAllDirty, EvCall 3 (FwdPropagate (propagateRequestFromItems [item_x1])),
      EvWrite ''x'' [2] 2,
      EvAllCommitted, EvCall 3 (BackPropagate (propagateRequestFromItems [])),
      EvCommit ''x'' 1]"
    using up bk by (simp add: fullPropagate_def)
  ultimately show ?thesis using down up by simp
qed

text \<open>
  Claim C4. The request built from a list of items holds, at each key, the versions of
  the items of that key, in the order of the list, and holds nothing at a key no item
  has. Forward propagation sends the request built from what \<^verbatim>\<open>AllDirty\<close> returned,
  back propagation the request built from what \<^verbatim>\<open>AllCommitted\<close> returned.
\<close>

theorem propagate_request_versions:
  "propagateRequestFromItems items k =
     (if k \<in> Key ` set items then Some (map Version (filter (\<lambda>i. Key i = k) items)) else None) \<and>
   (allDirty_reply env h = Inr dirty \<longrightarrow>
      (\<exists>t. snd (requestFwdPropagation env (Some c) h) =
            h @ [EvAllDirty, EvCall c (FwdPropagate (propagateRequestFromItems dirty))] @ t)) \<and>
   (allCommitted_reply env h = Inr committed \<longrightarrow>
      (\<exists>t. snd (requestBackPropagation env (Some c) h) =
            h @ [EvAllCommitted, EvCall c (BackPropagate (propagateRequestFromItems committed))] @ t))"
proof (intro conjI impI)
  show "propagateRequestFromItems items k =
     (if k \<in> Key ` set items then Some (map Version (filter (\<lambda>i. Key i = k) items)) else None)"
    by (simp add: propagateRequestFromItems_def foldl_req_append)
next
  assume dirty: "allDirty_reply env h = Inr dirty"
  let ?h2 = "h @ [EvAllDirty, EvCall c (FwdPropagate (propagateRequestFromItems dirty))]"
  show "\<exists>t. snd (requestFwdPropagation env (Some c) h) =
            h @ [EvAllDirty, EvCall c (FwdPropagate (propagateRequestFromItems dirty))] @ t"
  proof (cases "fwdPropagate_reply env (h @ [EvAllDirty]) c (propagateRequestFromItems dirty)")
    case (Inl e)
    with dirty show ?thesis by (simp add: requestFwd_call_error)
  next
    case (Inr reply)
    obtain j where "snd (run_calls (write_answer env) write_event (entries reply) ?h2) =
        ?h2 @ map write_event (take j (entries reply))"
      using run_calls_history by blast
    with dirty Inr show ?thesis by (simp add: requestFwd_reply)
  qed
next
  assume committed: "allCommitted_reply env h = Inr committed"
  let ?h2 = "h @ [EvAllCommitted, EvCall c (BackPropagate (propagateRequestFromItems committed))]"
  show "\<exists>t. snd (requestBackPropagation env (Some c) h) =
            h @ [EvAllCommitted, EvCall c (BackPropagate (propagateRequestFromItems committed))] @ t"
  proof (cases "backPropagate_reply env (h @ [EvAllCommitted]) c (propagateRequestFromItems committed)")
    case (Inl e)
    with committed show ?thesis by (simp add: requestBack_call_error)
  next
    case (Inr reply)
    obtain j where "snd (run_calls (commit_answer env) commit_event (entries reply) ?h2) =
        ?h2 @ map commit_event (take j (entries reply))"
      using run_calls_history by blast
    with committed Inr show ?thesis by (simp add: requestBack_reply)
  qed
qed

theorem propagate_request_versions_witness:
  "propagateRequestFromItems [item_x1, item_y1, item_x2] ''x'' = Some [1, 2] \<and>
   propagateRequestFromItems [item_x1, item_y1, item_x2] ''y'' = Some [1] \<and>
   propagateRequestFromItems [item_x1, item_y1, item_x2] ''z'' = None \<and>
   allDirty_reply env0 [] = Inr [item_x1] \<and>
   (\<exists>t. snd (requestFwdPropagation env0 (Some 3) []) =
         [EvAllDirty, EvCall 3 (FwdPropagate (propagateRequestFromItems [item_x1]))] @ t) \<and>
   allCommitted_reply env0 [] = Inr [] \<and>
   (\<exists>t. snd (requestBackPropagation env0 (Some 3) []) =
         [EvAllCommitted, EvCall 3 (BackPropagate (propagateRequestFromItems []))] @ t)"
proof -
  have d: "allDirty_reply env0 [] = Inr [item_x1]" and c: "allCommitted_reply env0 [] = Inr []"
    by (simp_all add: env0_def)
  have keys: "Key item_x1 = ''x''" "Key item_x2 = ''x''" "Key item_y1 = ''y''"
    "Version item_x1 = 1" "Version item_x2 = 2" "Version item_y1 = 1"
    by (simp_all add: item_x1_def item_x2_def item_y1_def)
  show ?thesis
    using propagate_request_versions [of "[item_x1, item_y1, item_x2]" "''x''" env0 "[]" "[item_x1]" 3 "[]"]
      propagate_request_versions [of "[item_x1, item_y1, item_x2]" "''y''" env0 "[]" "[item_x1]" 3 "[]"]
      propagate_request_versions [of "[item_x1, item_y1, item_x2]" "''z''" env0 "[]" "[item_x1]" 3 "[]"]
      d c
    by (simp add: keys)
qed

subsection \<open>Applying a response\<close>

lemma entries_mem:
  "(key, forKey) \<in> set reply \<Longrightarrow> item \<in> set forKey \<Longrightarrow> (key, item) \<in> set (entries reply)"
  by (auto simp: entries_def)

lemma commit_not_written: "EvCommit k ver \<notin> set (map write_event ps)"
  by (auto simp: write_event_def)

text \<open>
  Claim C5. A forward-propagation round trip: \<^verbatim>\<open>AllDirty\<close> returns the dirty items, the
  predecessor answers the request with \<open>reply\<close>, and every \<^verbatim>\<open>Store.Write\<close> the loop
  makes returns nil. Then the round trip returns nil, the calls it made are the
  enumeration, the request and one \<^verbatim>\<open>Store.Write(key, item.Value, item.Version)\<close> for every
  item of every entry of the reply, and no \<^verbatim>\<open>Store.Commit\<close> is called.
\<close>

theorem forward_round_trip_writes_response:
  assumes "allDirty_reply env h = Inr dirty"
    and "fwdPropagate_reply env (h @ [EvAllDirty]) c (propagateRequestFromItems dirty) = Inr reply"
    and "all_succeed (write_answer env) write_event (entries reply)
           (h @ [EvAllDirty, EvCall c (FwdPropagate (propagateRequestFromItems dirty))])"
  shows "requestFwdPropagation env (Some c) h =
           (Ok, h @ [EvAllDirty, EvCall c (FwdPropagate (propagateRequestFromItems dirty))] @
                map write_event (entries reply)) \<and>
         (\<forall>(key, forKey) \<in> set reply. \<forall>item \<in> set forKey.
             EvWrite key (Value item) (Version item) \<in>
               set (drop (length h) (snd (requestFwdPropagation env (Some c) h)))) \<and>
         (\<forall>k ver. EvCommit k ver \<notin> set (drop (length h) (snd (requestFwdPropagation env (Some c) h))))"
proof -
  let ?call = "EvCall c (FwdPropagate (propagateRequestFromItems dirty))"
  have run: "requestFwdPropagation env (Some c) h =
      (Ok, h @ [EvAllDirty, ?call] @ map write_event (entries reply))"
    using assms by (simp add: requestFwd_reply run_calls_all_succeed)
  have written: "EvWrite key (Value item) (Version item) \<in>
      set (drop (length h) (snd (requestFwdPropagation env (Some c) h)))"
    if "(key, forKey) \<in> set reply" "item \<in> set forKey" for key forKey item
  proof -
    have "write_event (key, item) \<in> set (map write_event (entries reply))"
      using entries_mem [OF that] by simp
    then show ?thesis by (simp add: run write_event_def)
  qed
  have "EvCommit k ver \<notin> set (drop (length h) (snd (requestFwdPropagation env (Some c) h)))"
    for k ver
    using commit_not_written [of k ver "entries reply"] by (simp add: run)
  with run written show ?thesis by blast
qed

theorem forward_round_trip_writes_response_witness:
  "allDirty_reply env0 [] = Inr [item_x1] \<and>
   fwdPropagate_reply env0 [EvAllDirty] 3 (propagateRequestFromItems [item_x1]) =
     Inr [(''x'', [item_x2])] \<and>
   all_succeed (write_answer env0) write_event (entries [(''x'', [item_x2])])
     [EvAllDirty, EvCall 3 (FwdPropagate (propagateRequestFromItems [item_x1]))] \<and>
   requestFwdPropagation env0 (Some 3) [] =
     (Ok, [EvAllDirty, EvCall 3 (FwdPropagate (propagateRequestFromItems [item_x1])),
           EvWrite ''x'' [2] 2])"
proof -
  have a: "allDirty_reply env0 [] = Inr [item_x1]"
    by (simp add: env0_def)
  have b: "fwdPropagate_reply env0 ([] @ [EvAllDirty]) 3 (propagateRequestFromItems [item_x1]) =
      Inr [(''x'', [item_x2])]"
    by (simp add: env0_def)
  have c: "all_succeed (write_answer env0) write_event (entries [(''x'', [item_x2])])
      ([] @ [EvAllDirty, EvCall 3 (FwdPropagate (propagateRequestFromItems [item_x1]))])"
    by (simp add: entries_def write_answer_def env0_def)
  from forward_round_trip_writes_response [OF a b c] a b c show ?thesis
    by (simp add: entries_def write_event_def item_x2_def)
qed

text \<open>
  Claim C6. A back-propagation round trip: \<^verbatim>\<open>AllCommitted\<close> returns the committed
  items, the predecessor answers the request with \<open>reply\<close>, and every \<^verbatim>\<open>Store.Commit\<close>
  the loop makes returns nil. Then the round trip returns nil and the calls it made are
  the enumeration, the request and one \<^verbatim>\<open>Store.Commit(key, item.Version)\<close> for every item
  of every entry of the reply.
\<close>

theorem back_round_trip_commits_response:
  assumes "allCommitted_reply env h = Inr committed"
    and "backPropagate_reply env (h @ [EvAllCommitted]) c (propagateRequestFromItems committed) =
           Inr reply"
    and "all_succeed (commit_answer env) commit_event (entries reply)
           (h @ [EvAllCommitted, EvCall c (BackPropagate (propagateRequestFromItems committed))])"
  shows "requestBackPropagation env (Some c) h =
           (Ok, h @ [EvAllCommitted, EvCall c (BackPropagate (propagateRequestFromItems committed))] @
                map commit_event (entries reply)) \<and>
         (\<forall>(key, forKey) \<in> set reply. \<forall>item \<in> set forKey.
             EvCommit key (Version item) \<in>
               set (drop (length h) (snd (requestBackPropagation env (Some c) h))))"
proof -
  let ?call = "EvCall c (BackPropagate (propagateRequestFromItems committed))"
  have run: "requestBackPropagation env (Some c) h =
      (Ok, h @ [EvAllCommitted, ?call] @ map commit_event (entries reply))"
    using assms by (simp add: requestBack_reply run_calls_all_succeed)
  have "EvCommit key (Version item) \<in>
      set (drop (length h) (snd (requestBackPropagation env (Some c) h)))"
    if "(key, forKey) \<in> set reply" "item \<in> set forKey" for key forKey item
  proof -
    have "commit_event (key, item) \<in> set (map commit_event (entries reply))"
      using entries_mem [OF that] by simp
    then show ?thesis by (simp add: run commit_event_def)
  qed
  with run show ?thesis by blast
qed

theorem back_round_trip_commits_response_witness:
  "allCommitted_reply env0 [] = Inr [] \<and>
   backPropagate_reply env0 [EvAllCommitted] 3 (propagateRequestFromItems []) =
     Inr [(''x'', [item_x1])] \<and>
   all_succeed (commit_answer env0) commit_event (entries [(''x'', [item_x1])])
     [EvAllCommitted, EvCall 3 (BackPropagate (propagateRequestFromItems []))] \<and>
   requestBackPropagation env0 (Some 3) [] =
     (Ok, [EvAllCommitted, EvCall 3 (BackPropagate (propagateRequestFromItems [])),
           EvCommit ''x'' 1])"
proof -
  have a: "allCommitted_reply env0 [] = Inr []"
    by (simp add: env0_def)
  have b: "backPropagate_reply env0 ([] @ [EvAllCommitted]) 3 (propagateRequestFromItems []) =
      Inr [(''x'', [item_x1])]"
    by (simp add: env0_def)
  have c: "all_succeed (commit_answer env0) commit_event (entries [(''x'', [item_x1])])
      ([] @ [EvAllCommitted, EvCall 3 (BackPropagate (propagateRequestFromItems []))])"
    by (simp add: entries_def commit_answer_def env0_def)
  from back_round_trip_commits_response [OF a b c] a b c show ?thesis
    by (simp add: entries_def commit_event_def item_x1_def)
qed

text \<open>
  Claim C9. Applying a response is not atomic. Let the pairs of the response be numbered
  in the order the loops reach them. If the store answers nil to the first \<open>i\<close> writes and
  an error to the write of pair \<open>i\<close>, then \<^verbatim>\<open>writePropagated\<close> returns that error, and
  the calls it made are exactly the \<open>i\<close> writes that succeeded followed by the one that
  failed: nothing is undone and no later pair is written. The same holds of
  \<^verbatim>\<open>commitPropagated\<close> and \<^verbatim>\<open>Store.Commit\<close>.
\<close>

theorem propagated_not_atomic:
  "(i < length (entries reply) \<and>
    all_succeed (write_answer env) write_event (take i (entries reply)) h \<and>
    write_answer env (h @ map write_event (take i (entries reply))) (entries reply ! i) = Some e \<longrightarrow>
    writePropagated env reply h =
      (Err e, h @ map write_event (take i (entries reply)) @ [write_event (entries reply ! i)])) \<and>
   (i < length (entries reply) \<and>
    all_succeed (commit_answer env) commit_event (take i (entries reply)) h \<and>
    commit_answer env (h @ map commit_event (take i (entries reply))) (entries reply ! i) = Some e \<longrightarrow>
    commitPropagated env reply h =
      (Err e, h @ map commit_event (take i (entries reply)) @ [commit_event (entries reply ! i)]))"
proof (intro conjI impI)
  assume "i < length (entries reply) \<and>
    all_succeed (write_answer env) write_event (take i (entries reply)) h \<and>
    write_answer env (h @ map write_event (take i (entries reply))) (entries reply ! i) = Some e"
  then have "run_calls (write_answer env) write_event (entries reply) h =
      (Err e, h @ map write_event (take (Suc i) (entries reply)))"
    by (intro run_calls_first_failure) simp_all
  moreover assume "i < length (entries reply) \<and>
    all_succeed (write_answer env) write_event (take i (entries reply)) h \<and>
    write_answer env (h @ map write_event (take i (entries reply))) (entries reply ! i) = Some e"
  ultimately show "writePropagated env reply h =
      (Err e, h @ map write_event (take i (entries reply)) @ [write_event (entries reply ! i)])"
    by (simp add: writePropagated_run take_Suc_conv_app_nth)
next
  assume "i < length (entries reply) \<and>
    all_succeed (commit_answer env) commit_event (take i (entries reply)) h \<and>
    commit_answer env (h @ map commit_event (take i (entries reply))) (entries reply ! i) = Some e"
  then have "run_calls (commit_answer env) commit_event (entries reply) h =
      (Err e, h @ map commit_event (take (Suc i) (entries reply)))"
    by (intro run_calls_first_failure) simp_all
  moreover assume "i < length (entries reply) \<and>
    all_succeed (commit_answer env) commit_event (take i (entries reply)) h \<and>
    commit_answer env (h @ map commit_event (take i (entries reply))) (entries reply ! i) = Some e"
  ultimately show "commitPropagated env reply h =
      (Err e, h @ map commit_event (take i (entries reply)) @ [commit_event (entries reply ! i)])"
    by (simp add: commitPropagated_run take_Suc_conv_app_nth)
qed

theorem propagated_not_atomic_witness:
  "entries reply3 = [(''x'', item_x1), (''x'', item_x2), (''y'', item_y1)] \<and>
   all_succeed (write_answer env_refuse2) write_event (take 1 (entries reply3)) [] \<and>
   write_answer env_refuse2 (map write_event (take 1 (entries reply3))) (entries reply3 ! 1) =
     Some (Error ''refused'') \<and>
   writePropagated env_refuse2 reply3 [] =
     (Err (Error ''refused''), [EvWrite ''x'' [1] 1, EvWrite ''x'' [2] 2]) \<and>
   all_succeed (commit_answer env_refuse2) commit_event (take 1 (entries reply3)) [] \<and>
   commit_answer env_refuse2 (map commit_event (take 1 (entries reply3))) (entries reply3 ! 1) =
     Some (Error ''refused'') \<and>
   commitPropagated env_refuse2 reply3 [] =
     (Err (Error ''refused''), [EvCommit ''x'' 1, EvCommit ''x'' 2])"
proof -
  have es: "entries reply3 = [(''x'', item_x1), (''x'', item_x2), (''y'', item_y1)]"
    by (simp add: entries_def reply3_def)
  have w: "all_succeed (write_answer env_refuse2) write_event (take 1 (entries reply3)) []"
    "write_answer env_refuse2 ([] @ map write_event (take 1 (entries reply3))) (entries reply3 ! 1) =
       Some (Error ''refused'')"
    by (simp_all add: es write_answer_def env_refuse2_def env0_def item_x1_def item_x2_def)
  have c: "all_succeed (commit_answer env_refuse2) commit_event (take 1 (entries reply3)) []"
    "commit_answer env_refuse2 ([] @ map commit_event (take 1 (entries reply3))) (entries reply3 ! 1) =
       Some (Error ''refused'')"
    by (simp_all add: es commit_answer_def env_refuse2_def env0_def item_x1_def item_x2_def)
  from propagated_not_atomic [of 1 reply3 env_refuse2 "[]" "Error ''refused''"] w c es
  show ?thesis
    by (simp add: write_event_def commit_event_def item_x1_def item_x2_def)
qed

subsection \<open>Connecting to a neighbor\<close>

lemma connectToNode_error:
  "connect_reply env h p = Inl e \<Longrightarrow> connectToNode env p pos n h = (Err e, n, h @ [EvConnect p])"
  by (simp add: connectToNode_def transport_Connect_def)

lemma connectToNode_connected:
  "connect_reply env h p = Inr c \<Longrightarrow>
   connectToNode env p pos n h =
     (Ok, n\<lparr>neighbors := (neighbors n)(pos \<mapsto> \<lparr> client = Some c, path = p \<rparr>)\<rparr>,
      h @ EvConnect p # (case client (nbr n pos) of None \<Rightarrow> [] | Some old \<Rightarrow> [EvClose old]))"
  by (simp add: connectToNode_def transport_Connect_def client_Close_def split: option.splits)

lemma fullPropagate_events:
  "\<exists>t. snd (fullPropagate env n h) = h @ EvAllDirty # t \<and>
       list_all (\<lambda>e. is_fwd_event e \<or> is_back_event e) t"
proof -
  let ?cl = "client (nbr n NeighborPosPrev)"
  obtain r h1 where fwd: "requestFwdPropagation env ?cl h = (r, h1)"
    by (cases "requestFwdPropagation env ?cl h")
  obtain fs where fs: "h1 = h @ EvAllDirty # fs" "list_all is_fwd_event fs"
    using requestFwd_events [of env ?cl h] fwd by auto
  show ?thesis
  proof (cases "r = Ok")
    case True
    obtain bs where bs: "snd (requestBackPropagation env ?cl h1) = h1 @ EvAllCommitted # bs"
      "list_all is_back_event bs"
      using requestBack_events by blast
    have "snd (fullPropagate env n h) = h @ EvAllDirty # (fs @ EvAllCommitted # bs)"
      using True fwd fs bs by (simp add: fullPropagate_def)
    moreover have "list_all (\<lambda>e. is_fwd_event e \<or> is_back_event e) (fs @ EvAllCommitted # bs)"
      using fs bs by (auto simp: list_all_iff)
    ultimately show ?thesis by blast
  next
    case False
    then have "snd (fullPropagate env n h) = h @ EvAllDirty # fs"
      using fwd fs by (cases r) (simp_all add: fullPropagate_def)
    moreover have "list_all (\<lambda>e. is_fwd_event e \<or> is_back_event e) fs"
      using fs by (auto simp: list_all_iff)
    ultimately show ?thesis by blast
  qed
qed

subsection \<open>The coordinator connection\<close>

text \<open>The node and the history after the coordinator has answered \<open>reply\<close> to the client
  \<open>c\<close>, when line 134 has installed the tail record.\<close>

lemma ConnectToCoordinator_reply:
  assumes "connect_reply env h (CdrPath n) = Inr c"
    and "addNode_reply env (h @ [EvConnect (CdrPath n)]) c (Path n) = Inr reply"
  shows "ConnectToCoordinator env n h =
     (case connect_to_tail env reply
             (n\<lparr>cdr := Some c, isHead := IsHead reply, isTail := IsTail reply,
                neighbors := (neighbors n)(NeighborPosTail \<mapsto> \<lparr> client = None, path = Tail reply \<rparr>)\<rparr>)
             (h @ [EvConnect (CdrPath n), EvCall c (AddNode (Path n))]) of
        (Ok, n3, h3) \<Rightarrow> connect_to_predecessor env reply n3 h3
      | (r, n3, h3) \<Rightarrow> (r, n3, h3))"
  using assms by (simp add: ConnectToCoordinator_def transport_Connect_def call_AddNode_def)

lemma connect_to_tail_cases:
  assumes "neighbors n NeighborPosTail = Some \<lparr> client = None, path = Tail reply \<rparr>"
  shows "connect_to_tail env reply n h =
     (if IsTail reply then (Ok, n, h)
      else case connect_reply env h (Tail reply) of
             Inl e \<Rightarrow> (Err e, n, h @ [EvConnect (Tail reply)])
           | Inr ct \<Rightarrow>
               (Ok, n\<lparr>neighbors := (neighbors n)(NeighborPosTail \<mapsto>
                         \<lparr> client = Some ct, path = Tail reply \<rparr>)\<rparr>,
                h @ [EvConnect (Tail reply)]))"
  using assms
  by (simp add: connect_to_tail_def connectToNode_def transport_Connect_def nbr_def
      split: sum.splits)

lemma connect_to_predecessor_tail_record:
  "neighbors (fst (snd (connect_to_predecessor env reply n h))) NeighborPosTail =
     neighbors n NeighborPosTail"
  by (simp add: connect_to_predecessor_def connectToNode_def transport_Connect_def
      split: sum.splits prod.splits result.splits option.splits)

lemma connect_to_predecessor_events:
  "\<exists>t. snd (snd (connect_to_predecessor env reply n h)) = h @ t \<and>
       (EvAllDirty \<in> set t \<longleftrightarrow> Prev reply \<noteq> [] \<and> (\<exists>cp. connect_reply env h (Prev reply) = Inr cp)) \<and>
       (\<forall>p. EvConnect p \<in> set t \<longrightarrow> p = Prev reply \<and> Prev reply \<noteq> [])"
proof (cases "Prev reply = []")
  case True
  then show ?thesis
    by (auto simp: connect_to_predecessor_def client_Close_def split: option.splits)
next
  case False
  show ?thesis
  proof (cases "connect_reply env h (Prev reply)")
    case (Inl e)
    with False show ?thesis
      by (simp add: connect_to_predecessor_def connectToNode_error)
  next
    case (Inr cp)
    let ?n1 = "n\<lparr>neighbors := (neighbors n)(NeighborPosPrev \<mapsto> \<lparr> client = Some cp, path = Prev reply \<rparr>)\<rparr>"
    let ?cl = "case client (nbr n NeighborPosPrev) of None \<Rightarrow> [] | Some old \<Rightarrow> [EvClose old]"
    let ?h1 = "h @ EvConnect (Prev reply) # ?cl"
    obtain t where t: "snd (fullPropagate env ?n1 ?h1) = ?h1 @ EvAllDirty # t"
      "list_all (\<lambda>e. is_fwd_event e \<or> is_back_event e) t"
      using fullPropagate_events by blast
    have "snd (snd (connect_to_predecessor env reply n h)) = snd (fullPropagate env ?n1 ?h1)"
      using False Inr
      by (simp add: connect_to_predecessor_def connectToNode_connected split: prod.splits)
    with t have h: "snd (snd (connect_to_predecessor env reply n h)) =
        h @ (EvConnect (Prev reply) # ?cl @ EvAllDirty # t)"
      by simp
    have "\<forall>p. EvConnect p \<notin> set t"
      using t(2) by (auto simp: list_all_iff)
    then have "\<forall>p. EvConnect p \<in> set (EvConnect (Prev reply) # ?cl @ EvAllDirty # t) \<longrightarrow> p = Prev reply"
      by (auto split: option.splits)
    moreover have "EvAllDirty \<in> set (EvConnect (Prev reply) # ?cl @ EvAllDirty # t)"
      by simp
    ultimately show ?thesis
      using h False Inr by blast
  qed
qed

text \<open>
  Claim C2, as the code has it. Let the coordinator connection reach the reply of
  \<^verbatim>\<open>AddNode\<close>. The catch-up (\<^verbatim>\<open>fullPropagate\<close>, whose first call is \<^verbatim>\<open>AllDirty\<close>) is run
  exactly when the reported predecessor is non-empty and the connections made before it
  succeed: the one to the tail, made when the node is not the tail, and the one to the
  predecessor. Whether the predecessor is the one already connected plays no part.
\<close>

theorem catch_up_iff_predecessor_reported:
  assumes "connect_reply env h (CdrPath n) = Inr c"
    and "addNode_reply env (h @ [EvConnect (CdrPath n)]) c (Path n) = Inr reply"
  shows "EvAllDirty \<in> set (drop (length h) (snd (snd (ConnectToCoordinator env n h)))) \<longleftrightarrow>
         Prev reply \<noteq> [] \<and>
         (IsTail reply \<or>
            (\<exists>ct. connect_reply env (h @ [EvConnect (CdrPath n), EvCall c (AddNode (Path n))])
                     (Tail reply) = Inr ct)) \<and>
         (\<exists>cp. connect_reply env
                  (h @ [EvConnect (CdrPath n), EvCall c (AddNode (Path n))] @
                     (if IsTail reply then [] else [EvConnect (Tail reply)]))
                  (Prev reply) = Inr cp)"
proof -
  let ?h2 = "h @ [EvConnect (CdrPath n), EvCall c (AddNode (Path n))]"
  let ?n2 = "n\<lparr>cdr := Some c, isHead := IsHead reply, isTail := IsTail reply,
                neighbors := (neighbors n)(NeighborPosTail \<mapsto> \<lparr> client = None, path = Tail reply \<rparr>)\<rparr>"
  have tail: "connect_to_tail env reply ?n2 ?h2 =
     (if IsTail reply then (Ok, ?n2, ?h2)
      else case connect_reply env ?h2 (Tail reply) of
             Inl e \<Rightarrow> (Err e, ?n2, ?h2 @ [EvConnect (Tail reply)])
           | Inr ct \<Rightarrow>
               (Ok, ?n2\<lparr>neighbors := (neighbors ?n2)(NeighborPosTail \<mapsto>
                         \<lparr> client = Some ct, path = Tail reply \<rparr>)\<rparr>,
                ?h2 @ [EvConnect (Tail reply)]))"
    by (rule connect_to_tail_cases) simp
  note start = ConnectToCoordinator_reply [OF assms]
  show ?thesis
  proof (cases "IsTail reply")
    case True
    obtain t where t: "snd (snd (connect_to_predecessor env reply ?n2 ?h2)) = ?h2 @ t"
      "EvAllDirty \<in> set t \<longleftrightarrow> Prev reply \<noteq> [] \<and> (\<exists>cp. connect_reply env ?h2 (Prev reply) = Inr cp)"
      using connect_to_predecessor_events [of env reply ?n2 ?h2] by blast
    have "ConnectToCoordinator env n h = connect_to_predecessor env reply ?n2 ?h2"
      unfolding start tail using True by simp
    with t(1) have "snd (snd (ConnectToCoordinator env n h)) = ?h2 @ t"
      by simp
    with t(2) True show ?thesis by simp
  next
    case False
    show ?thesis
    proof (cases "connect_reply env ?h2 (Tail reply)")
      case (Inl e)
      have "snd (snd (ConnectToCoordinator env n h)) = ?h2 @ [EvConnect (Tail reply)]"
        unfolding start tail using False Inl by simp
      with False Inl show ?thesis by simp
    next
      case (Inr ct)
      let ?n3 = "?n2\<lparr>neighbors := (neighbors ?n2)(NeighborPosTail \<mapsto>
                         \<lparr> client = Some ct, path = Tail reply \<rparr>)\<rparr>"
      let ?h3 = "?h2 @ [EvConnect (Tail reply)]"
      obtain t where t: "snd (snd (connect_to_predecessor env reply ?n3 ?h3)) = ?h3 @ t"
        "EvAllDirty \<in> set t \<longleftrightarrow> Prev reply \<noteq> [] \<and> (\<exists>cp. connect_reply env ?h3 (Prev reply) = Inr cp)"
        using connect_to_predecessor_events [of env reply ?n3 ?h3] by blast
      have "ConnectToCoordinator env n h = connect_to_predecessor env reply ?n3 ?h3"
        unfolding start tail using False Inr by simp
      with t(1) have "snd (snd (ConnectToCoordinator env n h)) = ?h3 @ t"
        by simp
      with t(2) False Inr show ?thesis by simp
    qed
  qed
qed

subsection \<open>The two joins, evaluated\<close>

lemmas call_defs = transport_Connect_def client_Close_def call_AddNode_def call_FwdPropagate_def
  call_BackPropagate_def store_AllDirty_def store_AllCommitted_def store_Write_def store_Commit_def

lemmas node_defs = ConnectToCoordinator_def connect_to_tail_def connect_to_predecessor_def
  connectToNode_def fullPropagate_def requestFwdPropagation_def requestBackPropagation_def
  nbr_def New_def opts0_def

lemma first_join_env0:
  "first_join env0 =
     (Ok,
      \<lparr> neighbors = [NeighborPosTail \<mapsto> \<lparr> client = Some 2, path = ''t'' \<rparr>,
                      NeighborPosPrev \<mapsto> \<lparr> client = Some 3, path = ''p'' \<rparr>],
        latest = Map.empty, CdrPath = ''c'', cdr = Some 0, Path = ''n'',
        isHead = False, isTail = False \<rparr>,
      [EvConnect ''c'', EvCall 0 (AddNode ''n''), EvConnect ''t'', EvConnect ''p'',
       EvAllDirty, EvCall 3 (FwdPropagate (propagateRequestFromItems [item_x1])),
       EvWrite ''x'' [2] 2,
       EvAllCommitted, EvCall 3 (BackPropagate (propagateRequestFromItems [])),
       EvCommit ''x'' 1])"
  by (simp add: first_join_def node_defs call_defs env0_def meta_middle_def item_x1_def item_x2_def
      eval_nat_numeral)

lemma second_join_env0:
  "snd (snd (second_join env0)) =
      [EvConnect ''c'', EvCall 0 (AddNode ''n''), EvConnect ''t'', EvConnect ''p'',
       EvAllDirty, EvCall 3 (FwdPropagate (propagateRequestFromItems [item_x1])),
       EvWrite ''x'' [2] 2,
       EvAllCommitted, EvCall 3 (BackPropagate (propagateRequestFromItems [])),
       EvCommit ''x'' 1,
       EvConnect ''c'', EvCall 10 (AddNode ''n''), EvConnect ''t'', EvConnect ''p'', EvClose 3,
       EvAllDirty, EvCall 13 (FwdPropagate (propagateRequestFromItems [item_x1])),
       EvWrite ''x'' [2] 2,
       EvAllCommitted, EvCall 13 (BackPropagate (propagateRequestFromItems [])),
       EvCommit ''x'' 1]"
  by (simp add: second_join_def first_join_env0)
     (simp add: node_defs call_defs env0_def meta_middle_def item_x1_def item_x2_def
      eval_nat_numeral)

lemma first_join_env_head:
  "first_join env_head =
     (Ok,
      \<lparr> neighbors = [NeighborPosTail \<mapsto> \<lparr> client = Some 2, path = ''t'' \<rparr>],
        latest = Map.empty, CdrPath = ''c'', cdr = Some 0, Path = ''n'',
        isHead = True, isTail = False \<rparr>,
      [EvConnect ''c'', EvCall 0 (AddNode ''n''), EvConnect ''t''])"
  by (simp add: first_join_def node_defs call_defs env_head_def env0_def meta_head_def eval_nat_numeral)

lemma second_join_env_head:
  "second_join env_head =
     (Ok,
      \<lparr> neighbors = [NeighborPosTail \<mapsto> \<lparr> client = Some 5, path = ''t'' \<rparr>],
        latest = Map.empty, CdrPath = ''c'', cdr = Some 3, Path = ''n'',
        isHead = True, isTail = False \<rparr>,
      [EvConnect ''c'', EvCall 0 (AddNode ''n''), EvConnect ''t'',
       EvConnect ''c'', EvCall 3 (AddNode ''n''), EvConnect ''t''])"
  by (simp add: second_join_def first_join_env_head)
     (simp add: node_defs call_defs env_head_def env0_def meta_head_def eval_nat_numeral)

theorem catch_up_iff_predecessor_reported_witness:
  "connect_reply env0 [] (CdrPath (New opts0)) = Inr 0 \<and>
   addNode_reply env0 ([] @ [EvConnect (CdrPath (New opts0))]) 0 (Path (New opts0)) = Inr meta_middle \<and>
   Prev meta_middle = ''p'' \<and>
   EvAllDirty \<in> set (snd (snd (ConnectToCoordinator env0 (New opts0) []))) \<and>
   addNode_reply env_head ([] @ [EvConnect (CdrPath (New opts0))]) 0 (Path (New opts0)) = Inr meta_head \<and>
   Prev meta_head = [] \<and>
   EvAllDirty \<notin> set (snd (snd (ConnectToCoordinator env_head (New opts0) [])))"
proof -
  have a: "connect_reply env0 [] (CdrPath (New opts0)) = Inr 0"
    and a': "connect_reply env_head [] (CdrPath (New opts0)) = Inr 0"
    by (simp_all add: env0_def env_head_def)
  have b: "addNode_reply env0 ([] @ [EvConnect (CdrPath (New opts0))]) 0 (Path (New opts0)) =
      Inr meta_middle"
    and b': "addNode_reply env_head ([] @ [EvConnect (CdrPath (New opts0))]) 0 (Path (New opts0)) =
      Inr meta_head"
    by (simp_all add: env0_def env_head_def)
  have "EvAllDirty \<in> set (snd (snd (ConnectToCoordinator env0 (New opts0) [])))"
    using catch_up_iff_predecessor_reported [OF a b] by (simp add: meta_middle_def env0_def)
  moreover have "EvAllDirty \<notin> set (snd (snd (ConnectToCoordinator env_head (New opts0) [])))"
    using catch_up_iff_predecessor_reported [OF a' b'] by (simp add: meta_head_def)
  ultimately show ?thesis
    using a b b' by (simp add: meta_middle_def meta_head_def)
qed

text \<open>Against C2 as stated: after a first join the predecessor p is connected; a second
  coordinator connection reports the same predecessor p, and the catch-up is run
  again.\<close>

theorem catch_up_runs_for_unchanged_predecessor:
  "path (nbr (fst (snd (first_join env0))) NeighborPosPrev) = ''p'' \<and>
   client (nbr (fst (snd (first_join env0))) NeighborPosPrev) = Some 3 \<and>
   addNode_reply env0 (snd (snd (first_join env0)) @ [EvConnect ''c'']) 10 ''n'' = Inr meta_middle \<and>
   Prev meta_middle = ''p'' \<and>
   EvAllDirty \<in> set (drop (length (snd (snd (first_join env0)))) (snd (snd (second_join env0))))"
proof -
  have "addNode_reply env0 (snd (snd (first_join env0)) @ [EvConnect ''c'']) 10 ''n'' = Inr meta_middle"
    by (simp add: env0_def)
  moreover have "Prev meta_middle = ''p''"
    by (simp add: meta_middle_def)
  moreover have "nbr (fst (snd (first_join env0))) NeighborPosPrev = \<lparr> client = Some 3, path = ''p'' \<rparr>"
    by (simp add: first_join_env0 nbr_def)
  moreover have "EvAllDirty \<in>
      set (drop (length (snd (snd (first_join env0)))) (snd (snd (second_join env0))))"
    by (simp add: first_join_env0 second_join_env0)
  ultimately show ?thesis by simp
qed

subsection \<open>The latest-version map\<close>

lemma connectToNode_latest: "latest (fst (snd (connectToNode env p pos n h))) = latest n"
  by (simp add: connectToNode_def split: prod.splits sum.splits)

lemma connect_to_tail_latest: "latest (fst (snd (connect_to_tail env reply n h))) = latest n"
  by (simp add: connect_to_tail_def connectToNode_latest)

lemma connect_to_predecessor_latest:
  "latest (fst (snd (connect_to_predecessor env reply n h))) = latest n"
proof (cases "connectToNode env (Prev reply) NeighborPosPrev n h")
  case (fields r n1 h1)
  with connectToNode_latest [of env "Prev reply" NeighborPosPrev n h] have "latest n1 = latest n"
    by simp
  with fields show ?thesis
    by (simp add: connect_to_predecessor_def split: prod.splits result.splits option.splits)
qed

lemma ConnectToCoordinator_latest:
  "latest (fst (snd (ConnectToCoordinator env n h))) = latest n"
proof (cases "transport_Connect env (CdrPath n) h")
  case connect: (Pair a h1)
  show ?thesis
  proof (cases a)
    case (Inl e)
    with connect show ?thesis by (simp add: ConnectToCoordinator_def)
  next
    case cdr: (Inr c)
    obtain b h2 where call: "call_AddNode env c (Path n) h1 = (b, h2)"
      by (cases "call_AddNode env c (Path n) h1")
    show ?thesis
    proof (cases b)
      case (Inl e)
      with connect cdr call show ?thesis by (simp add: ConnectToCoordinator_def)
    next
      case (Inr reply)
      let ?n2 = "n\<lparr>cdr := Some c, isHead := IsHead reply, isTail := IsTail reply,
                neighbors := (neighbors n)(NeighborPosTail \<mapsto> \<lparr> client = None, path = Tail reply \<rparr>)\<rparr>"
      obtain r n3 h3 where tail: "connect_to_tail env reply ?n2 h2 = (r, n3, h3)"
        by (cases "connect_to_tail env reply ?n2 h2")
      with connect_to_tail_latest [of env reply ?n2 h2] have "latest n3 = latest n"
        by simp
      with connect_to_predecessor_latest [of env reply n3 h3]
      have "latest (fst (snd (connect_to_predecessor env reply n3 h3))) = latest n"
        by simp
      with \<open>latest n3 = latest n\<close> connect cdr call Inr tail show ?thesis
        by (cases r) (simp_all add: ConnectToCoordinator_def)
    qed
  qed
qed

text \<open>
  Claim C3, as the code has it. \<^verbatim>\<open>New\<close> creates the node with an empty \<^verbatim>\<open>latest\<close> map,
  and the coordinator connection, with the catch-up it runs, leaves the map as it
  found it. So after startup \<^verbatim>\<open>latest[key]\<close> reads 0 at every key, whatever the store
  enumerates.
\<close>

theorem startup_leaves_latest_empty:
  "latest (New opts) = Map.empty \<and>
   latest (fst (snd (ConnectToCoordinator env n h))) = latest n \<and>
   latest_at (fst (snd (ConnectToCoordinator env (New opts) h))) k = 0"
proof -
  have empty: "latest (New opts) = Map.empty"
    by (simp add: New_def)
  have kept: "latest (fst (snd (ConnectToCoordinator env n h))) = latest n" for n
    by (rule ConnectToCoordinator_latest)
  have "latest (fst (snd (ConnectToCoordinator env (New opts) h))) k = None"
    by (simp only: kept empty)
  then have "latest_at (fst (snd (ConnectToCoordinator env (New opts) h))) k = 0"
    by (simp add: latest_at_def)
  with empty kept show ?thesis by blast
qed

theorem startup_leaves_latest_empty_witness:
  "latest (New opts0) = Map.empty \<and>
   fst (first_join env0) = Ok \<and>
   latest (fst (snd (first_join env0))) = Map.empty \<and>
   latest_at (fst (snd (first_join env0))) ''x'' = 0"
proof -
  from startup_leaves_latest_empty [of opts0 env0 "New opts0" "[]" "''x''"]
  have e: "latest (New opts0) = Map.empty"
    and u: "latest (fst (snd (ConnectToCoordinator env0 (New opts0) []))) = latest (New opts0)"
    and z: "latest_at (fst (snd (ConnectToCoordinator env0 (New opts0) []))) ''x'' = 0"
    by blast+
  have "fst (first_join env0) = Ok"
    by (simp add: first_join_env0)
  moreover have "latest (fst (snd (first_join env0))) = Map.empty"
    unfolding first_join_def using u e by (rule trans)
  moreover have "latest_at (fst (snd (first_join env0))) ''x'' = 0"
    unfolding first_join_def by (rule z)
  ultimately show ?thesis using e by blast
qed

text \<open>Against C3 as stated: the store enumerates version 1 of key x as dirty, and after
  startup \<^verbatim>\<open>latest\<close> does not hold it.\<close>

theorem latest_not_reconstructed:
  "allDirty_reply env0 (snd (snd (first_join env0))) = Inr [item_x1] \<and>
   allCommitted_reply env0 (snd (snd (first_join env0))) = Inr [] \<and>
   max_version ([item_x1] @ []) ''x'' = 1 \<and>
   latest_at (fst (snd (first_join env0))) ''x'' = 0 \<and>
   \<not> latest_reconstructed (fst (snd (first_join env0))) [item_x1] []"
proof -
  have "allDirty_reply env0 (snd (snd (first_join env0))) = Inr [item_x1]"
    "allCommitted_reply env0 (snd (snd (first_join env0))) = Inr []"
    by (simp_all add: env0_def)
  moreover have v: "max_version ([item_x1] @ []) ''x'' = 1"
    by (simp add: max_version_def item_x1_def)
  moreover have l: "latest_at (fst (snd (first_join env0))) ''x'' = 0"
    by (simp add: first_join_env0 latest_at_def)
  moreover have "\<not> latest_reconstructed (fst (snd (first_join env0))) [item_x1] []"
    using v l by (simp add: latest_reconstructed_def item_x1_def)
  ultimately show ?thesis by simp
qed

subsection \<open>The tail record\<close>

lemma propagation_opens_no_connection:
  "list_all (\<lambda>e. is_fwd_event e \<or> is_back_event e) t \<Longrightarrow> filter is_connect_event t = []"
proof -
  have "\<not> is_connect_event e" if "is_fwd_event e \<or> is_back_event e" for e
    using that by (cases e) auto
  then show "list_all (\<lambda>e. is_fwd_event e \<or> is_back_event e) t \<Longrightarrow> filter is_connect_event t = []"
    by (auto simp: list_all_iff filter_empty_conv)
qed

lemma connect_to_predecessor_connects:
  "\<exists>t. snd (snd (connect_to_predecessor env reply n h)) = h @ t \<and>
       filter is_connect_event t = (if Prev reply = [] then [] else [EvConnect (Prev reply)])"
proof (cases "Prev reply = []")
  case True
  then show ?thesis
    by (auto simp: connect_to_predecessor_def client_Close_def split: option.splits)
next
  case False
  show ?thesis
  proof (cases "connect_reply env h (Prev reply)")
    case (Inl e)
    with False show ?thesis
      by (simp add: connect_to_predecessor_def connectToNode_error)
  next
    case (Inr cp)
    let ?n1 = "n\<lparr>neighbors := (neighbors n)(NeighborPosPrev \<mapsto> \<lparr> client = Some cp, path = Prev reply \<rparr>)\<rparr>"
    let ?cl = "case client (nbr n NeighborPosPrev) of None \<Rightarrow> [] | Some old \<Rightarrow> [EvClose old]"
    let ?h1 = "h @ EvConnect (Prev reply) # ?cl"
    obtain t where t: "snd (fullPropagate env ?n1 ?h1) = ?h1 @ EvAllDirty # t"
      "list_all (\<lambda>e. is_fwd_event e \<or> is_back_event e) t"
      using fullPropagate_events by blast
    have "snd (snd (connect_to_predecessor env reply n h)) = snd (fullPropagate env ?n1 ?h1)"
      using False Inr
      by (simp add: connect_to_predecessor_def connectToNode_connected split: prod.splits)
    with t have "snd (snd (connect_to_predecessor env reply n h)) =
        h @ (EvConnect (Prev reply) # ?cl @ EvAllDirty # t)"
      by simp
    moreover have "filter is_connect_event (EvConnect (Prev reply) # ?cl @ EvAllDirty # t) =
        [EvConnect (Prev reply)]"
      using propagation_opens_no_connection [OF t(2)] by (simp split: option.splits)
    ultimately show ?thesis
      using False by auto
  qed
qed

text \<open>
  Claim C10. Let the coordinator connection reach the reply of \<^verbatim>\<open>AddNode\<close>. If the reply
  marks the node as tail, the tail record of the node that \<^verbatim>\<open>ConnectToCoordinator\<close> leaves
  holds the tail path and no client, and the only connections opened are the one to the
  coordinator and, when a predecessor is reported, the one to the predecessor. A tail
  record that holds a client is found only when the reply does not mark the node as tail.
\<close>

theorem tail_record_without_client:
  assumes "connect_reply env h (CdrPath n) = Inr c"
    and "addNode_reply env (h @ [EvConnect (CdrPath n)]) c (Path n) = Inr reply"
  shows "(IsTail reply \<longrightarrow>
            nbr (fst (snd (ConnectToCoordinator env n h))) NeighborPosTail =
              \<lparr> client = None, path = Tail reply \<rparr> \<and>
            filter is_connect_event (drop (length h) (snd (snd (ConnectToCoordinator env n h)))) =
              EvConnect (CdrPath n) # (if Prev reply = [] then [] else [EvConnect (Prev reply)])) \<and>
         (client (nbr (fst (snd (ConnectToCoordinator env n h))) NeighborPosTail) \<noteq> None \<longrightarrow>
            \<not> IsTail reply)"
proof -
  let ?h2 = "h @ [EvConnect (CdrPath n), EvCall c (AddNode (Path n))]"
  let ?n2 = "n\<lparr>cdr := Some c, isHead := IsHead reply, isTail := IsTail reply,
                neighbors := (neighbors n)(NeighborPosTail \<mapsto> \<lparr> client = None, path = Tail reply \<rparr>)\<rparr>"
  have tail: "nbr (fst (snd (ConnectToCoordinator env n h))) NeighborPosTail =
        \<lparr> client = None, path = Tail reply \<rparr> \<and>
      filter is_connect_event (drop (length h) (snd (snd (ConnectToCoordinator env n h)))) =
        EvConnect (CdrPath n) # (if Prev reply = [] then [] else [EvConnect (Prev reply)])"
    if "IsTail reply"
  proof -
    have "connect_to_tail env reply ?n2 ?h2 = (Ok, ?n2, ?h2)"
      using that by (simp add: connect_to_tail_def)
    then have run: "ConnectToCoordinator env n h = connect_to_predecessor env reply ?n2 ?h2"
      unfolding ConnectToCoordinator_reply [OF assms] by simp
    have "neighbors (fst (snd (ConnectToCoordinator env n h))) NeighborPosTail =
        Some \<lparr> client = None, path = Tail reply \<rparr>"
      unfolding run connect_to_predecessor_tail_record by simp
    then have tail_rec: "nbr (fst (snd (ConnectToCoordinator env n h))) NeighborPosTail =
        \<lparr> client = None, path = Tail reply \<rparr>"
      by (simp add: nbr_def)
    obtain t where t: "snd (snd (connect_to_predecessor env reply ?n2 ?h2)) = ?h2 @ t"
      "filter is_connect_event t = (if Prev reply = [] then [] else [EvConnect (Prev reply)])"
      using connect_to_predecessor_connects by blast
    have "filter is_connect_event (drop (length h) (snd (snd (ConnectToCoordinator env n h)))) =
        EvConnect (CdrPath n) # (if Prev reply = [] then [] else [EvConnect (Prev reply)])"
      unfolding run t(1) using t(2) by simp
    with tail_rec show ?thesis by simp
  qed
  then show ?thesis by auto
qed

theorem tail_record_without_client_witness:
  "connect_reply env_tail [] (CdrPath (New opts0)) = Inr 0 \<and>
   addNode_reply env_tail ([] @ [EvConnect (CdrPath (New opts0))]) 0 (Path (New opts0)) = Inr meta_tail \<and>
   IsTail meta_tail \<and>
   nbr (fst (snd (ConnectToCoordinator env_tail (New opts0) []))) NeighborPosTail =
     \<lparr> client = None, path = ''n'' \<rparr> \<and>
   filter is_connect_event (snd (snd (ConnectToCoordinator env_tail (New opts0) []))) =
     [EvConnect ''c'', EvConnect ''p''] \<and>
   connect_reply env0 [] (CdrPath (New opts0)) = Inr 0 \<and>
   addNode_reply env0 ([] @ [EvConnect (CdrPath (New opts0))]) 0 (Path (New opts0)) = Inr meta_middle \<and>
   client (nbr (fst (snd (ConnectToCoordinator env0 (New opts0) []))) NeighborPosTail) = Some 2 \<and>
   \<not> IsTail meta_middle"
proof -
  have a: "connect_reply env_tail [] (CdrPath (New opts0)) = Inr 0"
    and a': "connect_reply env0 [] (CdrPath (New opts0)) = Inr 0"
    by (simp_all add: env0_def env_tail_def)
  have b: "addNode_reply env_tail ([] @ [EvConnect (CdrPath (New opts0))]) 0 (Path (New opts0)) =
      Inr meta_tail"
    and b': "addNode_reply env0 ([] @ [EvConnect (CdrPath (New opts0))]) 0 (Path (New opts0)) =
      Inr meta_middle"
    by (simp_all add: env0_def env_tail_def)
  have t: "IsTail meta_tail" "Tail meta_tail = ''n''" "Prev meta_tail = ''p''"
    by (simp_all add: meta_tail_def)
  have c: "CdrPath (New opts0) = ''c''"
    by (simp add: New_def opts0_def)
  have m: "client (nbr (fst (snd (ConnectToCoordinator env0 (New opts0) []))) NeighborPosTail) = Some 2"
    using first_join_env0 by (simp add: first_join_def nbr_def)
  from tail_record_without_client [OF a b] tail_record_without_client [OF a' b'] a a' b b' t c m
  show ?thesis by simp
qed

text \<open>
  Claim C7 fails on the tail record. A head joins (the tail t is reached through the
  handle 2) and the coordinator connection is run again: line 134 overwrites the tail
  record before \<^verbatim>\<open>connectToNode\<close> looks for a client to close, so the new handle 5 is
  installed and the handle 2 is never closed.
\<close>

theorem tail_connection_replaced_without_close:
  "nbr (fst (snd (first_join env_head))) NeighborPosTail = \<lparr> client = Some 2, path = ''t'' \<rparr> \<and>
   nbr (fst (snd (second_join env_head))) NeighborPosTail = \<lparr> client = Some 5, path = ''t'' \<rparr> \<and>
   EvClose 2 \<notin> set (snd (snd (second_join env_head)))"
  by (simp add: first_join_env_head second_join_env_head nbr_def)

end
